theory Spec2Isabelle
  imports Main "HOL-Library.Sublist"
begin

section \<open>JavaScript strings and numbers used by \<open>src/main.ts\<close>\<close>

text \<open>
  Strings are \<open>char list\<close>. The action only handles run identifiers, event names,
  repository slugs and git refs, so the 8-bit characters of HOL stand for the UTF-16
  code units of the JavaScript strings.
\<close>

text \<open>
  \<open>Number.prototype.toString()\<close> on a non-negative integer: its decimal digits (run
  identifiers and run numbers stay far below \<open>10^21\<close>, where JavaScript changes to the
  exponent notation).
\<close>

definition digit_char :: "nat \<Rightarrow> char" where
  "digit_char d = ''0123456789'' ! (d mod 10)"

fun toString :: "nat \<Rightarrow> string" where
  "toString n = (if n < 10 then [digit_char n] else toString (n div 10) @ [digit_char (n mod 10)])"

declare toString.simps [simp del]

text \<open>
  The relational operators on two strings compare them code unit by code unit
  (lexicographically); \<open>a >= b\<close> is the negation of \<open>a < b\<close>.
\<close>

fun js_str_lt :: "string \<Rightarrow> string \<Rightarrow> bool" where
  "js_str_lt [] [] = False"
| "js_str_lt [] (y # ys) = True"
| "js_str_lt (x # xs) [] = False"
| "js_str_lt (x # xs) (y # ys) =
     (if (of_char x :: nat) < of_char y then True
      else if (of_char y :: nat) < of_char x then False
      else js_str_lt xs ys)"

definition js_str_ge :: "string \<Rightarrow> string \<Rightarrow> bool" where
  "js_str_ge a b = (\<not> js_str_lt a b)"

text \<open>\<open>String.prototype.startsWith\<close>.\<close>

definition startsWith :: "string \<Rightarrow> string \<Rightarrow> bool" where
  "startsWith s p = prefix p s"

text \<open>\<open>String.prototype.split\<close> with a one-character separator.\<close>

fun split :: "char \<Rightarrow> string \<Rightarrow> string list" where
  "split sep [] = [[]]"
| "split sep (c # cs) =
     (if c = sep then [] # split sep cs
      else (case split sep cs of
              [] \<Rightarrow> [[c]]
            | p # ps \<Rightarrow> (c # p) # ps))"

text \<open>
  \<open>String.prototype.replace\<close> with a string pattern and the empty replacement: the
  first occurrence of the pattern is removed, wherever it stands.
\<close>

fun replace :: "string \<Rightarrow> string \<Rightarrow> string" where
  "replace pat [] = []"
| "replace pat (c # cs) =
     (if prefix pat (c # cs) then drop (length pat) (c # cs) else c # replace pat cs)"

text \<open>
  \<open>Number.parseInt\<close> without a radix: leading white space is skipped, a sign is read,
  a \<open>0x\<close> prefix selects base 16, and the longest prefix of digits is the value.
  \<open>None\<close> is \<open>NaN\<close>. Values are unbounded integers (the loss of precision of a
  double beyond \<open>2^53\<close> is not modelled). The white space of the language that fits a
  character of this model: tab, line feed, vertical tab, form feed, carriage return,
  space and the no-break space \<open>U+00A0\<close>; the others are code units above 255.
\<close>

definition isWhiteSpace :: "char \<Rightarrow> bool" where
  "isWhiteSpace c = ((of_char c :: nat) \<in> set [9, 10, 11, 12, 13, 32, 160])"

definition digitValue :: "char \<Rightarrow> nat option" where
  "digitValue c =
     (let n = (of_char c :: nat) in
      if 48 \<le> n \<and> n \<le> 57 then Some (n - 48)
      else if 97 \<le> n \<and> n \<le> 102 then Some (n - 87)
      else if 65 \<le> n \<and> n \<le> 70 then Some (n - 55)
      else None)"

fun radixDigits :: "nat \<Rightarrow> string \<Rightarrow> nat list" where
  "radixDigits R [] = []"
| "radixDigits R (c # cs) =
     (case digitValue c of
        None \<Rightarrow> []
      | Some d \<Rightarrow> if d < R then d # radixDigits R cs else [])"

definition parseInt :: "string \<Rightarrow> int option" where
  "parseInt inputString =
     (let S = dropWhile isWhiteSpace inputString;
          sign = (if startsWith S ''-'' then - 1 else 1 :: int);
          S1 = (if startsWith S ''+'' \<or> startsWith S ''-'' then tl S else S);
          hex = (startsWith S1 ''0x'' \<or> startsWith S1 ''0X'');
          R = (if hex then 16 else 10 :: nat);
          Z = radixDigits R (if hex then drop 2 S1 else S1)
      in if Z = [] then None
         else Some (sign * int (foldl (\<lambda>a d. a * R + d) 0 Z)))"

section \<open>Data model\<close>

text \<open>
  One element of a \<open>listWorkflowRuns\<close> page, with the properties the action reads:
  \<open>id\<close> (here \<open>run_id\<close>), \<open>run_number\<close>, \<open>event\<close>, \<open>status\<close> and \<open>workflow_url\<close>.
\<close>

record workflow_run =
  run_id :: nat
  run_number :: nat
  event :: string
  status :: string
  workflow_url :: string

text \<open>
  \<open>item.data\<close> of one page: either the array of runs itself (\<open>length\<close> is defined), or
  the REST object that holds the array in its \<open>workflow_runs\<close> property.
\<close>

datatype page_data = ArrayData "workflow_run list" | ObjectData "workflow_run list"

text \<open>A thrown or rejected error object: its \<open>status\<close> (absent on a plain \<open>Error\<close>) and \<open>message\<close>.\<close>

datatype js_error = JsError (err_status: "nat option") (err_message: string)

abbreviation Error :: "string \<Rightarrow> js_error" where
  "Error m \<equiv> JsError None m"

text \<open>
  The external collaborators (the Octokit client). \<open>repo\<close> is \<open>None\<close> when the
  repository slug has no second component (\<open>undefined\<close>); the run identifier given to
  \<open>getWorkflowRun\<close> is the result of \<open>parseInt\<close>. \<open>paginate\<close> gives the pages the
  iterator yields and the error it then rejects with, if any. \<open>cancelWorkflowRun\<close>
  answers with the reply's status or rejects.
\<close>

record world =
  getWorkflowRun :: "string \<Rightarrow> string option \<Rightarrow> int option \<Rightarrow> js_error + string"
  paginate :: "string \<Rightarrow> string option \<Rightarrow> string \<Rightarrow> string \<Rightarrow> string \<Rightarrow> page_data list \<times> js_error option"
  cancelWorkflowRun :: "string \<Rightarrow> string option \<Rightarrow> nat \<Rightarrow> js_error + nat"

text \<open>What the process does that can be observed from outside.\<close>

datatype log_entry = Info string | Warning string

datatype api_call =
    GetWorkflowRun string "string option" "int option"
  | ListWorkflowRuns string "string option" string string string
  | CancelWorkflowRun string "string option" nat

text \<open>
  \<open>messages\<close>: the lines written with \<open>core.info\<close> and \<open>core.warning\<close>, oldest first;
  \<open>calls\<close>: the requests sent to the collaborators, oldest first;
  \<open>failed\<close>: the message given to \<open>core.setFailed\<close>, if it was called;
  \<open>unhandled\<close>: the error of a rejected promise that nothing awaits.
\<close>

record proc =
  messages :: "log_entry list"
  calls :: "api_call list"
  failed :: "string option"
  unhandled :: "js_error option"

definition start :: proc where
  "start = \<lparr>messages = [], calls = [], failed = None, unhandled = None\<rparr>"

definition info :: "string \<Rightarrow> proc \<Rightarrow> proc" where
  "info m st = st\<lparr>messages := messages st @ [Info m]\<rparr>"

definition warning :: "string \<Rightarrow> proc \<Rightarrow> proc" where
  "warning m st = st\<lparr>messages := messages st @ [Warning m]\<rparr>"

definition request :: "api_call \<Rightarrow> proc \<Rightarrow> proc" where
  "request c st = st\<lparr>calls := calls st @ [c]\<rparr>"

definition setFailed :: "string \<Rightarrow> proc \<Rightarrow> proc" where
  "setFailed m st = st\<lparr>failed := Some m\<rparr>"

text \<open>A value in a template literal: \<open>undefined\<close> prints as the word.\<close>

definition show_opt :: "string option \<Rightarrow> string" where
  "show_opt v = (case v of None \<Rightarrow> ''undefined'' | Some s \<Rightarrow> s)"

definition show_status :: "nat option \<Rightarrow> string" where
  "show_status v = (case v of None \<Rightarrow> ''undefined'' | Some n \<Rightarrow> toString n)"

section \<open>The ordered map (\<open>jstreemap.TreeMap\<close>)\<close>

text \<open>
  The library's tree map with number keys and the default comparison, as the list of
  its entries in ascending key order. \<open>set\<close> inserts an entry or replaces the
  value of an equal key; \<open>backward\<close> iterates from the largest key down.
\<close>

type_synonym 'v treemap = "(nat \<times> 'v) list"

fun tm_set :: "nat \<Rightarrow> 'v \<Rightarrow> 'v treemap \<Rightarrow> 'v treemap" where
  "tm_set k v [] = [(k, v)]"
| "tm_set k v ((k', v') # es) =
     (if k < k' then (k, v) # (k', v') # es
      else if k = k' then (k, v) # es
      else (k', v') # tm_set k v es)"

definition backward :: "'v treemap \<Rightarrow> (nat \<times> 'v) list" where
  "backward m = rev m"

definition tm_size :: "'v treemap \<Rightarrow> nat" where
  "tm_size m = length m"

section \<open>\<open>getRequiredEnv\<close>\<close>

definition getRequiredEnv :: "(string \<rightharpoonup> string) \<Rightarrow> string \<Rightarrow> js_error + string" where
  "getRequiredEnv env key =
     (case env key of
        None \<Rightarrow> Inl (Error (key @ '' was not defined.''))
      | Some v \<Rightarrow> Inr v)"

section \<open>\<open>cancelRun\<close>\<close>

text \<open>The \<open>try\<close>/\<open>catch\<close> around the cancel request: both branches only log.\<close>

definition cancelRun :: "world \<Rightarrow> string \<Rightarrow> string option \<Rightarrow> nat \<Rightarrow> proc \<Rightarrow> proc" where
  "cancelRun w owner repo i st =
     (let st1 = request (CancelWorkflowRun owner repo i) st in
      case cancelWorkflowRun w owner repo i of
        Inr reply_status \<Rightarrow>
          info (''Previous run (id '' @ toString i @ '') cancelled, status = ''
                @ toString reply_status) st1
      | Inl error \<Rightarrow>
          warning (''Could not cancel run (id '' @ toString i @ ''): [''
                   @ show_status (err_status error) @ ''] '' @ err_message error) st1)"

section \<open>\<open>cancelDuplicates\<close>\<close>

text \<open>Lines 65 to 70: the elements of one page are stored under their run numbers.\<close>

definition elements :: "page_data \<Rightarrow> workflow_run list" where
  "elements d = (case d of ArrayData xs \<Rightarrow> xs | ObjectData runs \<Rightarrow> runs)"

definition mergePage :: "page_data \<Rightarrow> workflow_run treemap \<Rightarrow> workflow_run treemap" where
  "mergePage d sortedRuns = fold (\<lambda>element m. tm_set (run_number element) element m) (elements d) sortedRuns"

text \<open>
  Lines 52 to 72: one listing per status; the pages the iterator yields are merged,
  and the iterator's rejection, when there is one, leaves the function.
\<close>

fun collectRuns ::
  "world \<Rightarrow> string \<Rightarrow> string option \<Rightarrow> string \<Rightarrow> string \<Rightarrow> string list \<Rightarrow>
   workflow_run treemap \<Rightarrow> proc \<Rightarrow> (js_error + workflow_run treemap) \<times> proc" where
  "collectRuns w owner repo workflowId branch [] sortedRuns st = (Inr sortedRuns, st)"
| "collectRuns w owner repo workflowId branch (s # statuses) sortedRuns st =
     (let st1 = request (ListWorkflowRuns owner repo workflowId s branch) st in
      case paginate w owner repo workflowId s branch of
        (pages, Some error) \<Rightarrow> (Inl error, st1)
      | (pages, None) \<Rightarrow>
          collectRuns w owner repo workflowId branch statuses (fold mergePage pages sortedRuns) st1)"

text \<open>
  Lines 77 to 105: the loop over the entries, newest run number first. Each of the
  three tests ends the iteration for its entry (\<open>continue\<close>); an entry that passes
  them is handed to \<open>cancelRun\<close>. \<open>runId >= selfRunId\<close> compares two strings.
\<close>

fun processRuns ::
  "world \<Rightarrow> string \<Rightarrow> string option \<Rightarrow> string \<Rightarrow> (nat \<times> workflow_run) list \<Rightarrow> proc \<Rightarrow> proc" where
  "processRuns w owner repo selfRunId [] st = st"
| "processRuns w owner repo selfRunId (entry # rest) st =
     (let element = snd entry;
          runId = toString (run_id element);
          ev = event element;
          st1 = info (''Processing run ID: '' @ runId @ '' ['' @ ev @ '' : ''
                      @ workflow_url element @ '' : '' @ status element @ '' : ''
                      @ toString (run_number element) @ '']'') st
      in if js_str_ge runId selfRunId then
           processRuns w owner repo selfRunId rest
             (info (''Skipping larger run ID: '' @ runId) st1)
         else if ''completed'' = status element then
           processRuns w owner repo selfRunId rest
             (info (''Skipping completed run ID: '' @ runId) st1)
         else if ev \<notin> set [''push'', ''pull_request''] then
           processRuns w owner repo selfRunId rest
             (info (''Skipping completed or non-event matching run ID: '' @ runId) st1)
         else
           processRuns w owner repo selfRunId rest
             (cancelRun w owner repo (run_id element)
                (info (''Cancelling run ID: '' @ runId) st1)))"

text \<open>
  The same loop read as the Duplicate Policy: the elements that reach line 104, in the
  order in which the loop visits them.
\<close>

fun duplicatePolicy :: "string \<Rightarrow> (nat \<times> workflow_run) list \<Rightarrow> workflow_run list" where
  "duplicatePolicy selfRunId [] = []"
| "duplicatePolicy selfRunId (entry # rest) =
     (let element = snd entry;
          runId = toString (run_id element);
          ev = event element
      in if js_str_ge runId selfRunId then duplicatePolicy selfRunId rest
         else if ''completed'' = status element then duplicatePolicy selfRunId rest
         else if ev \<notin> set [''push'', ''pull_request''] then duplicatePolicy selfRunId rest
         else element # duplicatePolicy selfRunId rest)"

text \<open>
  The whole function. The result is how its promise settles: \<open>Inl\<close> when it rejects.
  Constructing the client is taken to succeed.
\<close>

definition cancelDuplicates ::
  "world \<Rightarrow> string \<Rightarrow> string \<Rightarrow> string \<Rightarrow> string option \<Rightarrow> string \<Rightarrow> proc \<Rightarrow>
   (js_error + unit) \<times> proc" where
  "cancelDuplicates w token selfRunId owner repo branch st =
     (let st1 = request (GetWorkflowRun owner repo (parseInt selfRunId)) st in
      case getWorkflowRun w owner repo (parseInt selfRunId) of
        Inl error \<Rightarrow> (Inl error, st1)
      | Inr reply_workflow_url \<Rightarrow>
          (let workflowId = last (split CHR ''/'' reply_workflow_url) in
           if length workflowId = 0 then (Inl (Error ''Could not resolve workflow''), st1)
           else
             (let st2 = info (''Workflow ID is: '' @ workflowId) st1 in
              case collectRuns w owner repo workflowId branch [''queued'', ''in_progress''] [] st2 of
                (Inl error, st3) \<Rightarrow> (Inl error, st3)
              | (Inr sortedRuns, st3) \<Rightarrow>
                  (let st4 = info (''Found queued/in_progress workflows: ''
                                   @ toString (tm_size sortedRuns)) st3
                   in (Inr (), processRuns w owner repo selfRunId (backward sortedRuns) st4)))))"

section \<open>\<open>run\<close>\<close>

text \<open>
  The body of the \<open>try\<close> block. \<open>token\<close> is what \<open>core.getInput('github-token')\<close>
  returned. The first component is \<open>Inl\<close> when the block throws. The call of
  \<open>cancelDuplicates\<close> on line 167 is not awaited: the block ends normally whatever
  the promise does, and a rejection stays with the promise.
\<close>

definition branchPrefix :: string where
  "branchPrefix = ''refs/heads/''"

definition tagPrefix :: string where
  "tagPrefix = ''refs/tags/''"

definition run_try :: "world \<Rightarrow> string \<Rightarrow> (string \<rightharpoonup> string) \<Rightarrow> proc \<Rightarrow> (js_error + unit) \<times> proc" where
  "run_try w token env st =
     (let st1 = info token st in
      case getRequiredEnv env ''GITHUB_RUN_ID'' of
        Inl error \<Rightarrow> (Inl error, st1)
      | Inr selfRunId \<Rightarrow>
     (case getRequiredEnv env ''GITHUB_REPOSITORY'' of
        Inl error \<Rightarrow> (Inl error, st1)
      | Inr repository \<Rightarrow>
     (case getRequiredEnv env ''GITHUB_EVENT_NAME'' of
        Inl error \<Rightarrow> (Inl error, st1)
      | Inr eventName \<Rightarrow>
     (let parts = split CHR ''/'' repository;
          owner = hd parts;
          repo = (if 1 < length parts then Some (parts ! 1) else None)
      in if eventName \<notin> set [''push'', ''pull_request''] then
           (Inr (), info (''Skipping unsupported event: '' @ eventName) st1)
         else
           (let pullRequest = (''pull_request'' = eventName) in
            case getRequiredEnv env (if pullRequest then ''GITHUB_HEAD_REF'' else ''GITHUB_REF'') of
              Inl error \<Rightarrow> (Inl error, st1)
            | Inr ref \<Rightarrow>
                if \<not> pullRequest \<and> \<not> startsWith ref branchPrefix then
                  (if startsWith ref tagPrefix then
                     (Inr (), info (''Skipping tag build: '' @ ref) st1)
                   else
                     (Inl (Error (ref @ '' was not an expected branch ref (refs/heads/).'')), st1))
                else
                  (let branch = replace branchPrefix ref;
                       st2 = info (''Branch is '' @ branch @ '', repo is '' @ show_opt repo
                                   @ '', and owner is '' @ owner @ '', and id is '' @ selfRunId) st1
                   in case cancelDuplicates w token selfRunId owner repo branch st2 of
                        (Inl error, st3) \<Rightarrow> (Inr (), st3\<lparr>unhandled := Some error\<rparr>)
                      | (Inr u, st3) \<Rightarrow> (Inr (), st3)))))))"

text \<open>\<open>run\<close>: the \<open>try\<close> block and its \<open>catch\<close>, which hands the message to \<open>core.setFailed\<close>.\<close>

definition run :: "world \<Rightarrow> string \<Rightarrow> (string \<rightharpoonup> string) \<Rightarrow> proc" where
  "run w token env =
     (case run_try w token env start of
        (Inl error, st) \<Rightarrow> setFailed (err_message error) st
      | (Inr u, st) \<Rightarrow> st)"

text \<open>The run identifiers for which a cancel request was sent, in the order of the requests.\<close>

fun cancelled :: "api_call list \<Rightarrow> nat list" where
  "cancelled [] = []"
| "cancelled (CancelWorkflowRun owner repo i # cs) = i # cancelled cs"
| "cancelled (c # cs) = cancelled cs"

text \<open>
  The lines that the loop writes on line 83 when it visits an entry, in the order in
  which they were written: no other line that the loop or \<open>cancelRun\<close> writes begins
  with these words.
\<close>

definition visit_lines :: "log_entry list \<Rightarrow> log_entry list" where
  "visit_lines ms =
     filter (\<lambda>m. case m of Info s \<Rightarrow> prefix ''Processing run ID: '' s | Warning s \<Rightarrow> False) ms"

section \<open>Concrete inputs\<close>

text \<open>
  A listed run of the workflow; a cancel collaborator that accepts every request and
  one that refuses the run \<open>j\<close>; a collaborator that resolves the workflow, lists the
  given pages for the two statuses and answers cancel requests with \<open>cancel\<close>; and
  the environment of an event on a ref of \<open>o/r\<close>.
\<close>

definition listed_run :: "nat \<Rightarrow> nat \<Rightarrow> string \<Rightarrow> string \<Rightarrow> workflow_run" where
  "listed_run i n ev s =
     \<lparr>run_id = i, run_number = n, event = ev, status = s, workflow_url = ''/workflows/7''\<rparr>"

definition accepted :: "nat \<Rightarrow> js_error + nat" where
  "accepted i = Inr 202"

definition forbidden :: "nat \<Rightarrow> nat \<Rightarrow> js_error + nat" where
  "forbidden j i = (if i = j then Inl (JsError (Some 403) ''Forbidden'') else Inr 202)"

definition listing_world ::
  "page_data list \<Rightarrow> page_data list \<Rightarrow> (nat \<Rightarrow> js_error + nat) \<Rightarrow> world" where
  "listing_world queued in_progress cancel =
     \<lparr>getWorkflowRun = (\<lambda>owner repo i. Inr ''/workflows/7''),
      paginate = (\<lambda>owner repo workflowId s branch.
                    if s = ''queued'' then (queued, None) else (in_progress, None)),
      cancelWorkflowRun = (\<lambda>owner repo. cancel)\<rparr>"

text \<open>
  A collaborator whose lookup answers \<open>lookup\<close> and whose listing gives \<open>queued\<close> for
  the first status and then ends with \<open>failure\<close> for the second.
\<close>

definition faulty_world :: "(js_error + string) \<Rightarrow> page_data list \<Rightarrow> js_error option \<Rightarrow> world" where
  "faulty_world lookup queued failure =
     \<lparr>getWorkflowRun = (\<lambda>owner repo i. lookup),
      paginate = (\<lambda>owner repo workflowId s branch.
                    if s = ''queued'' then (queued, None) else ([], failure)),
      cancelWorkflowRun = (\<lambda>owner repo. accepted)\<rparr>"

definition event_env :: "string \<Rightarrow> string \<Rightarrow> string \<Rightarrow> (string \<rightharpoonup> string)" where
  "event_env selfRunId eventName ref =
     [''GITHUB_RUN_ID'' \<mapsto> selfRunId, ''GITHUB_REPOSITORY'' \<mapsto> ''o/r'',
      ''GITHUB_EVENT_NAME'' \<mapsto> eventName, ''GITHUB_REF'' \<mapsto> ref,
      ''GITHUB_HEAD_REF'' \<mapsto> ref]"

section \<open>The Collected Set in the words of the specification\<close>

text \<open>
  The specification's Collected Set: a mapping from \<open>runNumber\<close> to Run Record, built by
  taking the records in the order in which they are returned, a later record with
  the same \<open>runNumber\<close> overwriting an earlier one.
\<close>

definition spec_merge :: "workflow_run list \<Rightarrow> (nat \<rightharpoonup> workflow_run)" where
  "spec_merge records = fold (\<lambda>r collected. collected(run_number r \<mapsto> r)) records Map.empty"

section \<open>Observations are only extended\<close>

lemma info_fields [simp]:
  "messages (info m st) = messages st @ [Info m]"
  "calls (info m st) = calls st"
  "failed (info m st) = failed st"
  "unhandled (info m st) = unhandled st"
  by (simp_all add: info_def)

lemma warning_fields [simp]:
  "messages (warning m st) = messages st @ [Warning m]"
  "calls (warning m st) = calls st"
  "failed (warning m st) = failed st"
  "unhandled (warning m st) = unhandled st"
  by (simp_all add: warning_def)

lemma request_fields [simp]:
  "messages (request c st) = messages st"
  "calls (request c st) = calls st @ [c]"
  "failed (request c st) = failed st"
  "unhandled (request c st) = unhandled st"
  by (simp_all add: request_def)

lemma setFailed_fields [simp]:
  "messages (setFailed m st) = messages st"
  "calls (setFailed m st) = calls st"
  "failed (setFailed m st) = Some m"
  "unhandled (setFailed m st) = unhandled st"
  by (simp_all add: setFailed_def)

lemma cancelRun_calls [simp]:
  "calls (cancelRun w owner repo i st) = calls st @ [CancelWorkflowRun owner repo i]"
  by (simp add: cancelRun_def Let_def split: sum.split)

lemma cancelRun_failed [simp]: "failed (cancelRun w owner repo i st) = failed st"
  by (simp add: cancelRun_def Let_def split: sum.split)

lemma cancelRun_unhandled [simp]: "unhandled (cancelRun w owner repo i st) = unhandled st"
  by (simp add: cancelRun_def Let_def split: sum.split)

lemma cancelRun_messages: "prefix (messages st) (messages (cancelRun w owner repo i st))"
  by (simp add: cancelRun_def Let_def split: sum.split)

lemma processRuns_calls:
  "calls (processRuns w owner repo selfRunId entries st) =
     calls st @ map (\<lambda>element. CancelWorkflowRun owner repo (run_id element))
                    (duplicatePolicy selfRunId entries)"
  by (induction entries arbitrary: st) (simp_all add: Let_def)

lemma processRuns_failed [simp]:
  "failed (processRuns w owner repo selfRunId entries st) = failed st"
  by (induction entries arbitrary: st) (simp_all add: Let_def)

lemma processRuns_unhandled [simp]:
  "unhandled (processRuns w owner repo selfRunId entries st) = unhandled st"
  by (induction entries arbitrary: st) (simp_all add: Let_def)

lemma processRuns_messages:
  "prefix (messages st) (messages (processRuns w owner repo selfRunId entries st))"
proof (induction entries arbitrary: st)
  case Nil
  show ?case by simp
next
  case (Cons entry rest)
  let ?st1 = "info (''Processing run ID: '' @ toString (run_id (snd entry)) @ '' ['' @ event (snd entry) @ '' : ''
                      @ workflow_url (snd entry) @ '' : '' @ status (snd entry) @ '' : ''
                      @ toString (run_number (snd entry)) @ '']'') st"
  have p1: "prefix (messages st) (messages ?st1)" by simp
  have step: "\<And>st'. prefix (messages ?st1) (messages st') \<Longrightarrow>
      prefix (messages st) (messages (processRuns w owner repo selfRunId rest st'))"
    using Cons.IH p1 prefix_order.trans by blast
  have p2: "\<And>m. prefix (messages ?st1) (messages (info m ?st1))" by simp
  have p3: "\<And>m i. prefix (messages ?st1) (messages (cancelRun w owner repo i (info m ?st1)))"
    using cancelRun_messages p2 prefix_order.trans by blast
  show ?case
    by (simp only: processRuns.simps Let_def split: if_split) (intro conjI impI step p2 p3)
qed

lemma cancelled_append [simp]: "cancelled (xs @ ys) = cancelled xs @ cancelled ys"
  by (induction xs rule: cancelled.induct) simp_all

lemma cancelled_map_cancel [simp]:
  "cancelled (map (\<lambda>element. CancelWorkflowRun owner repo (f element)) xs) = map f xs"
  by (induction xs) simp_all

lemma duplicatePolicy_filter:
  "duplicatePolicy selfRunId entries =
     filter (\<lambda>element. \<not> js_str_ge (toString (run_id element)) selfRunId
                        \<and> status element \<noteq> ''completed''
                        \<and> event element \<in> {''push'', ''pull_request''})
            (map snd entries)"
  by (induction entries) (auto simp: Let_def)


section \<open>Facts about the ordered map\<close>

lemma tm_set_keys: "set (map fst (tm_set k v m)) = insert k (set (map fst m))"
  by (induction k v m rule: tm_set.induct) auto

lemma tm_set_sorted:
  "sorted_wrt (<) (map fst m) \<Longrightarrow> sorted_wrt (<) (map fst (tm_set k v m))"
proof (induction m)
  case Nil
  show ?case by simp
next
  case (Cons e es)
  obtain k' v' where e: "e = (k', v')" by (cases e)
  from Cons.prems have tl: "sorted_wrt (<) (map fst es)" and hd: "\<forall>x\<in>set (map fst es). k' < x"
    by (simp_all add: e)
  show ?case
  proof (cases "k < k'")
    case True
    with Cons.prems show ?thesis by (auto simp: e)
  next
    case False
    show ?thesis
    proof (cases "k = k'")
      case True
      with Cons.prems show ?thesis by (simp add: e)
    next
      case neq: False
      with False have "k' < k" by simp
      moreover have "sorted_wrt (<) (map fst (tm_set k v es))" using Cons.IH tl by simp
      ultimately show ?thesis using hd False neq
        by (simp add: e tm_set_keys del: set_map)
    qed
  qed
qed

lemma map_of_tm_set: "map_of (tm_set k v m) = (map_of m)(k \<mapsto> v)"
  by (induction m) (auto simp: fun_upd_twist)


lemma fold_tm_set_sorted:
  "sorted_wrt (<) (map fst m) \<Longrightarrow>
   sorted_wrt (<) (map fst (fold (\<lambda>element. tm_set (run_number element) element) xs m))"
  by (induction xs arbitrary: m) (simp_all add: tm_set_sorted)


lemma fold_tm_set_map_of:
  "map_of (fold (\<lambda>element. tm_set (run_number element) element) xs m) =
   fold (\<lambda>r f. f(run_number r \<mapsto> r)) xs (map_of m)"
  by (induction xs arbitrary: m) (simp_all add: map_of_tm_set)

lemma mergePages_fold:
  "fold mergePage pages m =
   fold (\<lambda>element. tm_set (run_number element) element) (concat (map elements pages)) m"
  by (induction pages arbitrary: m) (simp_all add: mergePage_def)

lemma mergePages_sorted:
  "sorted_wrt (<) (map fst m) \<Longrightarrow> sorted_wrt (<) (map fst (fold mergePage pages m))"
  by (simp add: mergePages_fold fold_tm_set_sorted)


lemma duplicatePolicy_subseq: "subseq (duplicatePolicy selfRunId entries) (map snd entries)"
  by (simp add: duplicatePolicy_filter)


section \<open>Facts about the listings\<close>

lemma collectRuns_cancel_indep:
  "collectRuns (w\<lparr>cancelWorkflowRun := c\<rparr>) owner repo workflowId branch statuses m st =
   collectRuns w owner repo workflowId branch statuses m st"
  by (induction statuses arbitrary: m st) (simp_all add: Let_def split: prod.split option.split)

lemma collectRuns_messages [simp]:
  "messages (snd (collectRuns w owner repo workflowId branch statuses m st)) = messages st"
  by (induction statuses arbitrary: m st) (simp_all add: Let_def split: prod.split option.split)

lemma collectRuns_failed [simp]:
  "failed (snd (collectRuns w owner repo workflowId branch statuses m st)) = failed st"
  by (induction statuses arbitrary: m st) (simp_all add: Let_def split: prod.split option.split)

lemma collectRuns_unhandled [simp]:
  "unhandled (snd (collectRuns w owner repo workflowId branch statuses m st)) = unhandled st"
  by (induction statuses arbitrary: m st) (simp_all add: Let_def split: prod.split option.split)

lemma collectRuns_cancelled [simp]:
  "cancelled (calls (snd (collectRuns w owner repo workflowId branch statuses m st))) =
   cancelled (calls st)"
  by (induction statuses arbitrary: m st) (simp_all add: Let_def split: prod.split option.split)

lemma collectRuns_calls:
  "prefix (calls st) (calls (snd (collectRuns w owner repo workflowId branch statuses m st)))"
proof (induction statuses arbitrary: m st)
  case Nil
  show ?case by simp
next
  case (Cons s statuses)
  let ?st1 = "request (ListWorkflowRuns owner repo workflowId s branch) st"
  have p1: "prefix (calls st) (calls ?st1)" by simp
  obtain pages err where pg: "paginate w owner repo workflowId s branch = (pages, err)"
    by (cases "paginate w owner repo workflowId s branch")
  show ?case
  proof (cases err)
    case None
    have "prefix (calls ?st1)
            (calls (snd (collectRuns w owner repo workflowId branch statuses (fold mergePage pages m) ?st1)))"
      by (rule Cons.IH)
    with p1 have "prefix (calls st)
            (calls (snd (collectRuns w owner repo workflowId branch statuses (fold mergePage pages m) ?st1)))"
      by (rule prefix_order.trans)
    then show ?thesis by (simp add: pg None Let_def)
  next
    case (Some e)
    then show ?thesis by (simp add: pg Let_def)
  qed
qed


lemma collectRuns_result:
  assumes "collectRuns w owner repo workflowId branch statuses m st = (res, st')"
  shows "messages st' = messages st" and "failed st' = failed st"
    and "unhandled st' = unhandled st" and "cancelled (calls st') = cancelled (calls st)"
    and "prefix (calls st) (calls st')"
proof -
  have st': "st' = snd (collectRuns w owner repo workflowId branch statuses m st)"
    by (simp add: assms)
  show "messages st' = messages st" by (simp add: st')
  show "failed st' = failed st" by (simp add: st')
  show "unhandled st' = unhandled st" by (simp add: st')
  show "cancelled (calls st') = cancelled (calls st)" by (simp add: st')
  show "prefix (calls st) (calls st')" unfolding st' by (rule collectRuns_calls)
qed

section \<open>\<open>cancelDuplicates\<close>: the four ways it ends\<close>

lemma cancelDuplicates_cases:
  fixes w token selfRunId owner repo branch st
  defines "st1 \<equiv> request (GetWorkflowRun owner repo (parseInt selfRunId)) st"
  obtains
    (lookup_failed) error where
      "getWorkflowRun w owner repo (parseInt selfRunId) = Inl error"
      "cancelDuplicates w token selfRunId owner repo branch st = (Inl error, st1)"
  | (unresolved) url where
      "getWorkflowRun w owner repo (parseInt selfRunId) = Inr url"
      "last (split CHR ''/'' url) = []"
      "cancelDuplicates w token selfRunId owner repo branch st =
         (Inl (Error ''Could not resolve workflow''), st1)"
  | (listing_failed) url error st3 where
      "getWorkflowRun w owner repo (parseInt selfRunId) = Inr url"
      "last (split CHR ''/'' url) \<noteq> []"
      "collectRuns w owner repo (last (split CHR ''/'' url)) branch [''queued'', ''in_progress''] []
         (info (''Workflow ID is: '' @ last (split CHR ''/'' url)) st1) = (Inl error, st3)"
      "cancelDuplicates w token selfRunId owner repo branch st = (Inl error, st3)"
  | (listed) url sortedRuns st3 where
      "getWorkflowRun w owner repo (parseInt selfRunId) = Inr url"
      "last (split CHR ''/'' url) \<noteq> []"
      "collectRuns w owner repo (last (split CHR ''/'' url)) branch [''queued'', ''in_progress''] []
         (info (''Workflow ID is: '' @ last (split CHR ''/'' url)) st1) = (Inr sortedRuns, st3)"
      "cancelDuplicates w token selfRunId owner repo branch st =
         (Inr (), processRuns w owner repo selfRunId (backward sortedRuns)
                    (info (''Found queued/in_progress workflows: '' @ toString (tm_size sortedRuns)) st3))"
proof (cases "getWorkflowRun w owner repo (parseInt selfRunId)")
  case (Inl error)
  then show ?thesis using lookup_failed by (simp add: cancelDuplicates_def st1_def Let_def)
next
  case (Inr url)
  show ?thesis
  proof (cases "last (split CHR ''/'' url) = []")
    case True
    with Inr show ?thesis using unresolved by (simp add: cancelDuplicates_def st1_def Let_def)
  next
    case False
    obtain res st3 where c:
      "collectRuns w owner repo (last (split CHR ''/'' url)) branch [''queued'', ''in_progress''] []
         (info (''Workflow ID is: '' @ last (split CHR ''/'' url)) st1) = (res, st3)"
      by fastforce
    show ?thesis
    proof (cases res)
      case (Inl error)
      have "cancelDuplicates w token selfRunId owner repo branch st = (Inl error, st3)"
        using Inr False c[unfolded st1_def] Inl by (simp add: cancelDuplicates_def Let_def)
      then show ?thesis using listing_failed Inr False c Inl by blast
    next
      case inr: (Inr sortedRuns)
      have "cancelDuplicates w token selfRunId owner repo branch st =
         (Inr (), processRuns w owner repo selfRunId (backward sortedRuns)
                    (info (''Found queued/in_progress workflows: '' @ toString (tm_size sortedRuns)) st3))"
        using Inr False c[unfolded st1_def] inr by (simp add: cancelDuplicates_def Let_def)
      then show ?thesis using listed Inr False c inr by blast
    qed
  qed
qed

lemma cancelDuplicates_messages:
  "prefix (messages st) (messages (snd (cancelDuplicates w token selfRunId owner repo branch st)))"
proof (cases rule: cancelDuplicates_cases[of w owner repo selfRunId token branch st])
  case (lookup_failed error)
  then show ?thesis by simp
next
  case (unresolved url)
  then show ?thesis by simp
next
  case (listing_failed url error st3)
  then show ?thesis by (simp add: collectRuns_result(1)[OF listing_failed(3)])
next
  case (listed url sortedRuns st3)
  let ?st4 = "info (''Found queued/in_progress workflows: '' @ toString (tm_size sortedRuns)) st3"
  have "prefix (messages st) (messages ?st4)"
    by (simp add: collectRuns_result(1)[OF listed(3)])
  moreover have "prefix (messages ?st4)
     (messages (processRuns w owner repo selfRunId (backward sortedRuns) ?st4))"
    by (rule processRuns_messages)
  ultimately show ?thesis unfolding listed(4) snd_conv by (rule prefix_order.trans)
qed

lemma cancelDuplicates_failed [simp]:
  "failed (snd (cancelDuplicates w token selfRunId owner repo branch st)) = failed st"
proof (cases rule: cancelDuplicates_cases[of w owner repo selfRunId token branch st])
  case (listing_failed url error st3)
  then show ?thesis by (simp add: collectRuns_result(2)[OF listing_failed(3)])
next
  case (listed url sortedRuns st3)
  then show ?thesis by (simp add: collectRuns_result(2)[OF listed(3)])
qed simp_all

lemma cancelDuplicates_unhandled [simp]:
  "unhandled (snd (cancelDuplicates w token selfRunId owner repo branch st)) = unhandled st"
proof (cases rule: cancelDuplicates_cases[of w owner repo selfRunId token branch st])
  case (listing_failed url error st3)
  then show ?thesis by (simp add: collectRuns_result(3)[OF listing_failed(3)])
next
  case (listed url sortedRuns st3)
  then show ?thesis by (simp add: collectRuns_result(3)[OF listed(3)])
qed simp_all

lemma cancelDuplicates_rejected:
  assumes "fst (cancelDuplicates w token selfRunId owner repo branch st) = Inl error"
  shows "cancelled (calls (snd (cancelDuplicates w token selfRunId owner repo branch st))) =
         cancelled (calls st)"
proof (cases rule: cancelDuplicates_cases[of w owner repo selfRunId token branch st])
  case (listing_failed url error st3)
  then show ?thesis by (simp add: collectRuns_result(4)[OF listing_failed(3)])
next
  case (listed url sortedRuns st3)
  with assms show ?thesis by simp
qed simp_all

lemma cancelDuplicates_first_call:
  "prefix (calls st @ [GetWorkflowRun owner repo (parseInt selfRunId)])
          (calls (snd (cancelDuplicates w token selfRunId owner repo branch st)))"
proof (cases rule: cancelDuplicates_cases[of w owner repo selfRunId token branch st])
  case (listing_failed url error st3)
  from collectRuns_result(5)[OF listing_failed(3)] show ?thesis
    by (simp add: listing_failed(4))
next
  case (listed url sortedRuns st3)
  from collectRuns_result(5)[OF listed(3)]
  have "prefix (calls st @ [GetWorkflowRun owner repo (parseInt selfRunId)]) (calls st3)"
    by simp
  then show ?thesis
    by (simp add: listed(4) processRuns_calls prefix_prefix)
qed simp_all

section \<open>\<open>run\<close>: the three ways the \<open>try\<close> block ends\<close>

lemma run_try_shape:
  "(\<exists>error. \<forall>w. run_try w token env st = (Inl error, info token st))
   \<or> (\<exists>m. \<forall>w. run_try w token env st = (Inr (), info m (info token st)))
   \<or> (\<exists>selfRunId owner repo branch m. \<forall>w. run_try w token env st =
        (case cancelDuplicates w token selfRunId owner repo branch (info m (info token st)) of
           (Inl error, st3) \<Rightarrow> (Inr (), st3\<lparr>unhandled := Some error\<rparr>)
         | (Inr u, st3) \<Rightarrow> (Inr (), st3)))"
  (is "?threw \<or> ?skipped \<or> ?started")
proof (cases "env ''GITHUB_RUN_ID''")
  case None
  then have ?threw by (simp add: run_try_def getRequiredEnv_def Let_def)
  then show ?thesis by simp
next
  case rid: (Some selfRunId)
  show ?thesis
  proof (cases "env ''GITHUB_REPOSITORY''")
    case None
    with rid have ?threw by (simp add: run_try_def getRequiredEnv_def Let_def)
    then show ?thesis by simp
  next
    case slug: (Some repository)
    show ?thesis
    proof (cases "env ''GITHUB_EVENT_NAME''")
      case None
      with rid slug have ?threw by (simp add: run_try_def getRequiredEnv_def Let_def)
      then show ?thesis by simp
    next
      case ev: (Some eventName)
      show ?thesis
      proof (cases "eventName \<notin> set [''push'', ''pull_request'']")
        case True
        with rid slug ev have ?skipped
          by (simp add: run_try_def getRequiredEnv_def Let_def) blast
        then show ?thesis by simp
      next
        case accepted: False
        show ?thesis
        proof (cases "env (if ''pull_request'' = eventName then ''GITHUB_HEAD_REF'' else ''GITHUB_REF'')")
          case None
          with rid slug ev accepted have ?threw
            by (simp add: run_try_def getRequiredEnv_def Let_def)
          then show ?thesis by simp
        next
          case ref: (Some ref)
          show ?thesis
          proof (cases "''pull_request'' \<noteq> eventName \<and> \<not> startsWith ref branchPrefix")
            case True
            show ?thesis
            proof (cases "startsWith ref tagPrefix")
              case tag: True
              with rid slug ev accepted ref True have ?skipped
                by (simp add: run_try_def getRequiredEnv_def Let_def) blast
              then show ?thesis by simp
            next
              case False
              with rid slug ev accepted ref True have ?threw
                by (simp add: run_try_def getRequiredEnv_def Let_def)
              then show ?thesis by simp
            qed
          next
            case False
            with rid slug ev accepted ref have ?started
              by (simp add: run_try_def getRequiredEnv_def Let_def) blast
            then show ?thesis by simp
          qed
        qed
      qed
    qed
  qed
qed


lemma cancelDuplicates_result:
  assumes "cancelDuplicates w token selfRunId owner repo branch st = (res, st')"
  shows "prefix (messages st) (messages st')" and "failed st' = failed st"
    and "unhandled st' = unhandled st"
    and "res = Inl error \<Longrightarrow> cancelled (calls st') = cancelled (calls st)"
proof -
  have st': "st' = snd (cancelDuplicates w token selfRunId owner repo branch st)"
    and res: "res = fst (cancelDuplicates w token selfRunId owner repo branch st)"
    by (simp_all add: assms)
  show "prefix (messages st) (messages st')" unfolding st' by (rule cancelDuplicates_messages)
  show "failed st' = failed st" by (simp add: st')
  show "unhandled st' = unhandled st" by (simp add: st')
  show "cancelled (calls st') = cancelled (calls st)" if "res = Inl error"
    unfolding st' using that res by (intro cancelDuplicates_rejected[of _ _ _ _ _ _ _ error]) simp
qed

lemma run_try_messages:
  "prefix (messages st @ [Info token]) (messages (snd (run_try w token env st)))"
proof -
  consider
    (threw) error where "run_try w token env st = (Inl error, info token st)"
  | (skipped) m where "run_try w token env st = (Inr (), info m (info token st))"
  | (started) selfRunId owner repo branch m where "run_try w token env st =
        (case cancelDuplicates w token selfRunId owner repo branch (info m (info token st)) of
           (Inl error, st3) \<Rightarrow> (Inr (), st3\<lparr>unhandled := Some error\<rparr>)
         | (Inr u, st3) \<Rightarrow> (Inr (), st3))"
    using run_try_shape[of token env st] by blast
  then show ?thesis
  proof cases
    case threw
    then show ?thesis by simp
  next
    case skipped
    then show ?thesis by simp
  next
    case started
    obtain res st3 where
      cd: "cancelDuplicates w token selfRunId owner repo branch (info m (info token st)) = (res, st3)"
      by fastforce
    have "prefix (messages (info m (info token st))) (messages st3)"
      by (rule cancelDuplicates_result(1)[OF cd])
    then have "prefix (messages st @ [Info token]) (messages st3)"
      by (simp add: append_prefixD)
    then show ?thesis
      by (cases res) (simp_all add: started cd)
  qed
qed

lemma run_messages: "prefix [Info token] (messages (run w token env))"
proof -
  obtain res st where r: "run_try w token env start = (res, st)"
    by fastforce
  have "prefix (messages start @ [Info token]) (messages st)"
    using run_try_messages[of start token w env] unfolding r snd_conv .
  then have "prefix [Info token] (messages st)"
    by (simp add: start_def)
  then show ?thesis
    by (cases res) (simp_all add: run_def r)
qed

lemma run_rejection:
  assumes "unhandled (run w token env) = Some error"
  shows "failed (run w token env) = None" and "cancelled (calls (run w token env)) = []"
proof -
  consider
    (threw) e where "run_try w token env start = (Inl e, info token start)"
  | (skipped) m where "run_try w token env start = (Inr (), info m (info token start))"
  | (started) selfRunId owner repo branch m where "run_try w token env start =
        (case cancelDuplicates w token selfRunId owner repo branch (info m (info token start)) of
           (Inl error, st3) \<Rightarrow> (Inr (), st3\<lparr>unhandled := Some error\<rparr>)
         | (Inr u, st3) \<Rightarrow> (Inr (), st3))"
    using run_try_shape[of token env start] by blast
  then have "failed (run w token env) = None \<and> cancelled (calls (run w token env)) = []"
  proof cases
    case threw
    with assms show ?thesis by (simp add: run_def start_def)
  next
    case skipped
    with assms show ?thesis by (simp add: run_def start_def)
  next
    case started
    let ?st2 = "info m (info token start)"
    obtain res st3 where cd: "cancelDuplicates w token selfRunId owner repo branch ?st2 = (res, st3)"
      by fastforce
    have f: "failed st3 = None" and u: "unhandled st3 = None"
      using cancelDuplicates_result(2,3)[OF cd] by (simp_all add: start_def)
    show ?thesis
    proof (cases res)
      case (Inl e)
      have "cancelled (calls st3) = []"
        using cancelDuplicates_result(4)[OF cd Inl] by (simp add: start_def)
      then show ?thesis by (simp add: run_def started cd Inl f)
    next
      case (Inr u')
      with assms show ?thesis by (simp add: run_def started cd u)
    qed
  qed
  then show "failed (run w token env) = None" and "cancelled (calls (run w token env)) = []"
    by simp_all
qed

section \<open>The cancel collaborator only shows in the messages\<close>

lemma quiet_info [simp]: "(info m st)\<lparr>messages := []\<rparr> = st\<lparr>messages := []\<rparr>"
  by (simp add: info_def)

lemma quiet_warning [simp]: "(warning m st)\<lparr>messages := []\<rparr> = st\<lparr>messages := []\<rparr>"
  by (simp add: warning_def)

lemma quiet_request [simp]: "(request c st)\<lparr>messages := []\<rparr> = request c (st\<lparr>messages := []\<rparr>)"
  by (simp add: request_def)

lemma quiet_cancelRun [simp]:
  "(cancelRun w owner repo i st)\<lparr>messages := []\<rparr> =
   request (CancelWorkflowRun owner repo i) (st\<lparr>messages := []\<rparr>)"
  by (simp add: cancelRun_def Let_def split: sum.split)

lemma quiet_processRuns:
  "(processRuns w owner repo selfRunId entries st)\<lparr>messages := []\<rparr> =
   fold request (map (\<lambda>element. CancelWorkflowRun owner repo (run_id element))
                     (duplicatePolicy selfRunId entries)) (st\<lparr>messages := []\<rparr>)"
  by (induction entries arbitrary: st) (simp_all add: Let_def)

lemma cancelDuplicates_cancel_indep:
  "fst (cancelDuplicates (w\<lparr>cancelWorkflowRun := c\<rparr>) token selfRunId owner repo branch st) =
   fst (cancelDuplicates w token selfRunId owner repo branch st)"
  "(snd (cancelDuplicates (w\<lparr>cancelWorkflowRun := c\<rparr>) token selfRunId owner repo branch st))\<lparr>messages := []\<rparr> =
   (snd (cancelDuplicates w token selfRunId owner repo branch st))\<lparr>messages := []\<rparr>"
  by (simp_all add: cancelDuplicates_def Let_def collectRuns_cancel_indep quiet_processRuns
        split: sum.split prod.split)

lemma run_cancel_indep:
  "(run (w\<lparr>cancelWorkflowRun := c\<rparr>) token env)\<lparr>messages := []\<rparr> = (run w token env)\<lparr>messages := []\<rparr>"
proof -
  let ?w' = "w\<lparr>cancelWorkflowRun := c\<rparr>"
  consider
    (threw) e where "\<forall>w. run_try w token env start = (Inl e, info token start)"
  | (skipped) m where "\<forall>w. run_try w token env start = (Inr (), info m (info token start))"
  | (started) selfRunId owner repo branch m where "\<forall>w. run_try w token env start =
        (case cancelDuplicates w token selfRunId owner repo branch (info m (info token start)) of
           (Inl error, st3) \<Rightarrow> (Inr (), st3\<lparr>unhandled := Some error\<rparr>)
         | (Inr u, st3) \<Rightarrow> (Inr (), st3))"
    using run_try_shape[of token env start] by blast
  then show ?thesis
  proof cases
    case threw
    then show ?thesis by (simp add: run_def)
  next
    case skipped
    then show ?thesis by (simp add: run_def)
  next
    case started
    let ?st2 = "info m (info token start)"
    obtain res st3 where cd: "cancelDuplicates w token selfRunId owner repo branch ?st2 = (res, st3)"
      by fastforce
    obtain res' st3' where cd': "cancelDuplicates ?w' token selfRunId owner repo branch ?st2 = (res', st3')"
      by fastforce
    have r: "res' = res" and s: "st3'\<lparr>messages := []\<rparr> = st3\<lparr>messages := []\<rparr>"
      using cancelDuplicates_cancel_indep[where w = w and c = c and token = token
          and selfRunId = selfRunId and owner = owner and repo = repo and branch = branch
          and st = ?st2]
      by (simp_all add: cd cd')
    have u: "\<And>v. (st3'\<lparr>unhandled := v\<rparr>)\<lparr>messages := []\<rparr> = (st3\<lparr>unhandled := v\<rparr>)\<lparr>messages := []\<rparr>"
      using s by (metis proc.update_convs(1,4) proc.surjective)
    show ?thesis
      using started s u by (simp add: run_def cd cd' r split: sum.split)
  qed
qed

section \<open>Further facts about the collector and the listing\<close>


lemma cancelDuplicates_listed:
  assumes "getWorkflowRun w owner repo (parseInt selfRunId) = Inr url"
    and "last (split CHR ''/'' url) \<noteq> []"
    and "paginate w owner repo (last (split CHR ''/'' url)) ''queued'' branch = (queued, None)"
    and "paginate w owner repo (last (split CHR ''/'' url)) ''in_progress'' branch = (in_progress, None)"
  shows "fst (cancelDuplicates w token selfRunId owner repo branch st) = Inr ()"
    and "cancelled (calls (snd (cancelDuplicates w token selfRunId owner repo branch st))) =
         cancelled (calls st) @
         map run_id (duplicatePolicy selfRunId (backward (fold mergePage (queued @ in_progress) [])))"
  using assms by (simp_all add: cancelDuplicates_def Let_def processRuns_calls)

lemma fold_tm_set_key_set:
  "set (map fst (fold (\<lambda>element. tm_set (run_number element) element) xs m)) =
   run_number ` set xs \<union> set (map fst m)"
  by (induction xs arbitrary: m) (auto simp add: tm_set_keys simp del: set_map)

lemma tag_is_no_branch: "startsWith ref tagPrefix \<Longrightarrow> \<not> startsWith ref branchPrefix"
  by (auto simp: startsWith_def tagPrefix_def branchPrefix_def prefix_def)

lemma run_started:
  assumes "run_try w token env start =
        (case cancelDuplicates w token selfRunId owner repo branch st2 of
           (Inl error, st3) \<Rightarrow> (Inr (), st3\<lparr>unhandled := Some error\<rparr>)
         | (Inr u, st3) \<Rightarrow> (Inr (), st3))"
  shows "failed (run w token env) = failed st2"
    and "prefix (calls st2 @ [GetWorkflowRun owner repo (parseInt selfRunId)]) (calls (run w token env))"
proof -
  obtain res st3 where cd: "cancelDuplicates w token selfRunId owner repo branch st2 = (res, st3)"
    by fastforce
  have c: "prefix (calls st2 @ [GetWorkflowRun owner repo (parseInt selfRunId)]) (calls st3)"
    using cancelDuplicates_first_call[of st2 owner repo selfRunId w token branch]
    unfolding cd snd_conv .
  show "failed (run w token env) = failed st2"
    using cancelDuplicates_result(2)[OF cd] by (cases res) (simp_all add: run_def assms cd)
  show "prefix (calls st2 @ [GetWorkflowRun owner repo (parseInt selfRunId)]) (calls (run w token env))"
    using c by (cases res) (simp_all add: run_def assms cd)
qed

lemma replace_prefix: "replace branchPrefix (branchPrefix @ b) = b"
  by (simp add: branchPrefix_def)

text \<open>
  The loop writes one visit line for each entry, in the order of the entries; and a
  pull request with a defined head ref always starts \<open>cancelDuplicates\<close>, for the branch
  that is the head ref without its first \<open>refs/heads/\<close>.
\<close>

lemma visit_lines_append [simp]: "visit_lines (xs @ ys) = visit_lines xs @ visit_lines ys"
  by (simp add: visit_lines_def)

lemma cancelRun_visits [simp]:
  "visit_lines (messages (cancelRun w owner repo i st)) = visit_lines (messages st)"
  by (simp add: cancelRun_def Let_def visit_lines_def split: sum.split)


lemma pull_request_is_started:
  assumes "env ''GITHUB_RUN_ID'' = Some selfRunId" and "env ''GITHUB_REPOSITORY'' = Some repository"
    and "env ''GITHUB_EVENT_NAME'' = Some ''pull_request''" and "env ''GITHUB_HEAD_REF'' = Some ref"
  shows "run_try w token env st =
     (case cancelDuplicates w token selfRunId (hd (split CHR ''/'' repository))
             (if 1 < length (split CHR ''/'' repository)
              then Some (split CHR ''/'' repository ! 1) else None)
             (replace branchPrefix ref)
             (info (''Branch is '' @ replace branchPrefix ref @ '', repo is ''
                    @ show_opt (if 1 < length (split CHR ''/'' repository)
                                then Some (split CHR ''/'' repository ! 1) else None)
                    @ '', and owner is '' @ hd (split CHR ''/'' repository)
                    @ '', and id is '' @ selfRunId) (info token st)) of
        (Inl error, st3) \<Rightarrow> (Inr (), st3\<lparr>unhandled := Some error\<rparr>)
      | (Inr u, st3) \<Rightarrow> (Inr (), st3))"
  using assms by (simp add: run_try_def getRequiredEnv_def Let_def)

section \<open>Where the string comparison is the numeric one\<close>

text \<open>
  \<open>split\<close> never returns the empty list, so \<open>hd\<close> and \<open>last\<close> of its result are
  the first and the last piece. Two identifiers with the same number of digits
  compare as strings the way they compare as numbers.
\<close>

lemma split_nonempty: "split sep s \<noteq> []"
  by (induction s) (auto split: list.split)

lemma of_char_digit: "d < 10 \<Longrightarrow> of_char (digit_char d) = (48 + d :: nat)"
proof -
  assume "d < 10"
  then have "d \<in> {0, 1, 2, 3, 4, 5, 6, 7, 8, 9}" by auto
  then show ?thesis by (auto simp: digit_char_def)
qed

lemma toString_small: "n < 10 \<Longrightarrow> toString n = [digit_char n]"
  by (subst toString.simps) simp

lemma toString_large:
  "\<not> n < 10 \<Longrightarrow> toString n = toString (n div 10) @ [digit_char (n mod 10)]"
  by (subst toString.simps) simp

lemma toString_length: "length (toString n) = Suc 0 \<longleftrightarrow> n < 10"
proof (cases "n < 10")
  case True
  then show ?thesis by (simp add: toString_small)
next
  case False
  have "toString (n div 10) \<noteq> []"
    by (subst toString.simps) simp
  with False show ?thesis by (simp add: toString_large)
qed

lemma js_str_lt_irrefl: "\<not> js_str_lt xs xs"
  by (induction xs) simp_all

lemma js_str_lt_snoc:
  "length xs = length ys \<Longrightarrow>
   js_str_lt (xs @ [a]) (ys @ [b]) =
     (js_str_lt xs ys \<or> (xs = ys \<and> (of_char a :: nat) < of_char b))"
proof (induction xs ys rule: list_induct2)
  case Nil
  show ?case by auto
next
  case (Cons x xs y ys)
  have "x = y" if "(of_char x :: nat) = of_char y"
    using that by simp
  with Cons show ?case by (auto simp: js_str_lt_irrefl)
qed

lemma decimal_less:
  "(a::nat) < b \<longleftrightarrow> a div 10 < b div 10 \<or> (a div 10 = b div 10 \<and> a mod 10 < b mod 10)"
proof -
  define qa ra qb rb where "qa = a div 10" and "ra = a mod 10" and "qb = b div 10" and "rb = b mod 10"
  have "a = 10 * qa + ra" "b = 10 * qb + rb" "ra < 10" "rb < 10"
    by (simp_all add: qa_def ra_def qb_def rb_def)
  then have "a < b \<longleftrightarrow> qa < qb \<or> (qa = qb \<and> ra < rb)"
    by linarith
  then show ?thesis by (simp only: qa_def ra_def qb_def rb_def)
qed

lemma toString_inject: "toString a = toString b \<Longrightarrow> a = b"
proof (induction a arbitrary: b rule: toString.induct)
  case (1 a)
  show ?case
  proof (cases "a < 10")
    case True
    with "1.prems" have "toString b = [digit_char a]" by (simp add: toString_small)
    then have "length (toString b) = Suc 0" by simp
    then have b: "b < 10" by (simp add: toString_length)
    with True "1.prems" have "(of_char (digit_char a) :: nat) = of_char (digit_char b)"
      by (simp add: toString_small)
    with True b show ?thesis by (simp add: of_char_digit)
  next
    case False
    then have "length (toString a) \<noteq> Suc 0" by (simp add: toString_length)
    with "1.prems" have b: "\<not> b < 10" by (simp add: toString_length)
    from "1.prems" False b have eq: "toString (a div 10) = toString (b div 10)"
      and d: "digit_char (a mod 10) = digit_char (b mod 10)"
      by (simp_all add: toString_large)
    from "1.IH"[OF False eq] have q: "a div 10 = b div 10" .
    from d have "(of_char (digit_char (a mod 10)) :: nat) = of_char (digit_char (b mod 10))"
      by simp
    then have m: "a mod 10 = b mod 10" by (simp add: of_char_digit)
    have "a = a div 10 * 10 + a mod 10" by simp
    also have "\<dots> = b div 10 * 10 + b mod 10" by (simp only: q m)
    also have "\<dots> = b" by simp
    finally show ?thesis .
  qed
qed

lemma js_str_lt_toString:
  "length (toString a) = length (toString b) \<Longrightarrow> js_str_lt (toString a) (toString b) \<longleftrightarrow> a < b"
proof (induction a arbitrary: b rule: toString.induct)
  case (1 a)
  show ?case
  proof (cases "a < 10")
    case True
    with "1.prems" have "length (toString b) = Suc 0" by (simp add: toString_small)
    then have b: "b < 10" by (simp add: toString_length)
    with True show ?thesis by (simp add: toString_small of_char_digit)
  next
    case False
    then have "length (toString a) \<noteq> Suc 0" by (simp add: toString_length)
    with "1.prems" have b: "\<not> b < 10" by (simp add: toString_length)
    from "1.prems" False b have len: "length (toString (a div 10)) = length (toString (b div 10))"
      by (simp add: toString_large)
    have hi: "js_str_lt (toString (a div 10)) (toString (b div 10)) \<longleftrightarrow> a div 10 < b div 10"
      by (rule "1.IH"[OF False len])
    have same: "toString (a div 10) = toString (b div 10) \<longleftrightarrow> a div 10 = b div 10"
      using toString_inject by auto
    have "js_str_lt (toString a) (toString b) \<longleftrightarrow>
            a div 10 < b div 10 \<or> (a div 10 = b div 10 \<and> a mod 10 < b mod 10)"
      using False b by (simp add: toString_large js_str_lt_snoc[OF len] hi same of_char_digit)
    also have "\<dots> \<longleftrightarrow> a < b" by (rule decimal_less[symmetric])
    finally show ?thesis .
  qed
qed

lemma same_length_compares_numerically:
  "length (toString a) = length (toString b) \<Longrightarrow> js_str_ge (toString a) (toString b) \<longleftrightarrow> b \<le> a"
  by (auto simp: js_str_ge_def js_str_lt_toString)

text \<open>The definitions that a concrete run unfolds.\<close>

lemmas eval_defs = run_def run_try_def cancelDuplicates_def cancelRun_def getRequiredEnv_def
  listing_world_def event_env_def listed_run_def start_def info_def warning_def request_def
  setFailed_def Let_def startsWith_def branchPrefix_def tagPrefix_def parseInt_def
  isWhiteSpace_def digitValue_def js_str_ge_def toString.simps digit_char_def
  mergePage_def elements_def backward_def tm_size_def show_opt_def show_status_def
  accepted_def forbidden_def faulty_world_def

section \<open>The claims\<close>

text \<open>
  C1. The claim: the cancellation output never includes a record whose \<open>runId\<close> is
  numerically greater than or equal to the current run's \<open>runId\<close>. The loop compares the
  two identifiers as strings, so a newer run whose identifier has one digit more than
  the current run's compares as smaller and is cancelled: with the current run
  \<open>9999999999\<close>, the queued run \<open>10000000000\<close> is a target.
\<close>

theorem C1_newer_run_is_cancelled:
  "parseInt ''9999999999'' = Some 9999999999
   \<and> js_str_ge (toString 10000000000) ''9999999999'' = False
   \<and> duplicatePolicy ''9999999999'' [(8, listed_run 10000000000 8 ''push'' ''queued'')]
       = [listed_run 10000000000 8 ''push'' ''queued'']
   \<and> run (listing_world [ArrayData [listed_run 10000000000 8 ''push'' ''queued'']] [] accepted)
         ''t'' (event_env ''9999999999'' ''push'' ''refs/heads/main'')
       = \<lparr>messages =
           [Info ''t'',
            Info ''Branch is main, repo is r, and owner is o, and id is 9999999999'',
            Info ''Workflow ID is: 7'',
            Info ''Found queued/in_progress workflows: 1'',
            Info ''Processing run ID: 10000000000 [push : /workflows/7 : queued : 8]'',
            Info ''Cancelling run ID: 10000000000'',
            Info ''Previous run (id 10000000000) cancelled, status = 202''],
          calls =
           [GetWorkflowRun ''o'' (Some ''r'') (Some 9999999999),
            ListWorkflowRuns ''o'' (Some ''r'') ''7'' ''queued'' ''main'',
            ListWorkflowRuns ''o'' (Some ''r'') ''7'' ''in_progress'' ''main'',
            CancelWorkflowRun ''o'' (Some ''r'') 10000000000],
          failed = None, unhandled = None\<rparr>"
  by (simp add: eval_defs)

text \<open>
  C2. The claim: a listing failure or an unresolvable workflow aborts the operation
  before any cancellation and is reported through \<open>core.setFailed\<close>. Both leave
  \<open>cancelDuplicates\<close> as a rejection of its promise, which \<open>run\<close> does not await: no
  cancel request is sent, but \<open>core.setFailed\<close> is not called either. A ref of an
  unsupported shape, thrown inside \<open>run\<close> itself, is reported.
\<close>

theorem C2_rejection_is_not_reported:
  "run (faulty_world (Inr ''/workflows/7'') [ArrayData [listed_run 100 10 ''push'' ''queued'']]
          (Some (JsError (Some 502) ''Bad Gateway'')))
       ''t'' (event_env ''102'' ''push'' ''refs/heads/main'')
     = \<lparr>messages =
           [Info ''t'',
            Info ''Branch is main, repo is r, and owner is o, and id is 102'',
            Info ''Workflow ID is: 7''],
        calls =
           [GetWorkflowRun ''o'' (Some ''r'') (Some 102),
            ListWorkflowRuns ''o'' (Some ''r'') ''7'' ''queued'' ''main'',
            ListWorkflowRuns ''o'' (Some ''r'') ''7'' ''in_progress'' ''main''],
        failed = None, unhandled = Some (JsError (Some 502) ''Bad Gateway'')\<rparr>
   \<and> run (faulty_world (Inr ''https://api.github.com/repos/o/r/actions/workflows/'') [] None)
       ''t'' (event_env ''102'' ''push'' ''refs/heads/main'')
     = \<lparr>messages =
           [Info ''t'',
            Info ''Branch is main, repo is r, and owner is o, and id is 102''],
        calls = [GetWorkflowRun ''o'' (Some ''r'') (Some 102)],
        failed = None, unhandled = Some (Error ''Could not resolve workflow'')\<rparr>
   \<and> run (faulty_world (Inr ''/workflows/7'') [] None)
       ''t'' (event_env ''102'' ''push'' ''refs/pull/1/merge'')
     = \<lparr>messages = [Info ''t''], calls = [],
        failed = Some ''refs/pull/1/merge was not an expected branch ref (refs/heads/).'',
        unhandled = None\<rparr>"
  by (simp add: eval_defs)

text \<open>
  C3. An event name other than \<open>push\<close> and \<open>pull_request\<close> skips the whole
  operation, and so does a push whose \<open>GITHUB_REF\<close> begins with \<open>refs/tags/\<close>: no
  lookup, listing or cancel request is sent and no promise is left behind, whatever
  the other variables are; and when the run identifier and the repository are defined
  the run ends without failure, with the line that names the skip as its last line.
\<close>

theorem C3_tag_pushes_and_other_events_are_skipped:
  "(env ''GITHUB_EVENT_NAME'' = Some eventName \<and> eventName \<notin> {''push'', ''pull_request''} \<longrightarrow>
      calls (run w token env) = [] \<and> unhandled (run w token env) = None
      \<and> (env ''GITHUB_RUN_ID'' = Some selfRunId \<and> env ''GITHUB_REPOSITORY'' = Some repository \<longrightarrow>
           run w token env =
             start\<lparr>messages := [Info token, Info (''Skipping unsupported event: '' @ eventName)]\<rparr>))
   \<and> (env ''GITHUB_EVENT_NAME'' = Some ''push'' \<and> env ''GITHUB_REF'' = Some ref
        \<and> startsWith ref tagPrefix \<longrightarrow>
      calls (run w token env) = [] \<and> unhandled (run w token env) = None
      \<and> (env ''GITHUB_RUN_ID'' = Some selfRunId \<and> env ''GITHUB_REPOSITORY'' = Some repository \<longrightarrow>
           run w token env =
             start\<lparr>messages := [Info token, Info (''Skipping tag build: '' @ ref)]\<rparr>))"
proof -
  have other: "calls (run w token env) = [] \<and> unhandled (run w token env) = None
      \<and> (env ''GITHUB_RUN_ID'' = Some selfRunId \<and> env ''GITHUB_REPOSITORY'' = Some repository \<longrightarrow>
           run w token env =
             start\<lparr>messages := [Info token, Info (''Skipping unsupported event: '' @ eventName)]\<rparr>)"
    if "env ''GITHUB_EVENT_NAME'' = Some eventName" "eventName \<notin> {''push'', ''pull_request''}"
    using that
    by (cases "env ''GITHUB_RUN_ID''"; cases "env ''GITHUB_REPOSITORY''")
       (simp_all add: run_def run_try_def getRequiredEnv_def Let_def info_def setFailed_def start_def)
  have tag: "calls (run w token env) = [] \<and> unhandled (run w token env) = None
      \<and> (env ''GITHUB_RUN_ID'' = Some selfRunId \<and> env ''GITHUB_REPOSITORY'' = Some repository \<longrightarrow>
           run w token env =
             start\<lparr>messages := [Info token, Info (''Skipping tag build: '' @ ref)]\<rparr>)"
    if "env ''GITHUB_EVENT_NAME'' = Some ''push''" "env ''GITHUB_REF'' = Some ref"
       "startsWith ref tagPrefix"
    using that tag_is_no_branch[OF that(3)]
    by (cases "env ''GITHUB_RUN_ID''"; cases "env ''GITHUB_REPOSITORY''")
       (simp_all add: run_def run_try_def getRequiredEnv_def Let_def info_def setFailed_def start_def)
  from other tag show ?thesis by blast
qed

theorem C3_witness:
  "run (listing_world [] [] accepted) ''t'' (event_env ''102'' ''push'' ''refs/tags/v1'')
     = \<lparr>messages = [Info ''t'', Info ''Skipping tag build: refs/tags/v1''], calls = [],
        failed = None, unhandled = None\<rparr>
   \<and> run (listing_world [] [] accepted) ''t'' (event_env ''102'' ''schedule'' ''refs/heads/main'')
     = \<lparr>messages = [Info ''t'', Info ''Skipping unsupported event: schedule''], calls = [],
        failed = None, unhandled = None\<rparr>
   \<and> calls (run (listing_world [] [] accepted) ''t''
               [''GITHUB_EVENT_NAME'' \<mapsto> ''push'', ''GITHUB_REF'' \<mapsto> ''refs/tags/v1'']) = []"
  using C3_tag_pushes_and_other_events_are_skipped
      [of "event_env ''102'' ''push'' ''refs/tags/v1''" "''schedule''"
          "listing_world [] [] accepted" "''t''" "''102''" "''o/r''" "''refs/tags/v1''"]
    C3_tag_pushes_and_other_events_are_skipped
      [of "event_env ''102'' ''schedule'' ''refs/heads/main''" "''schedule''"
          "listing_world [] [] accepted" "''t''" "''102''" "''o/r''" "''refs/tags/v1''"]
    C3_tag_pushes_and_other_events_are_skipped
      [of "[''GITHUB_EVENT_NAME'' \<mapsto> ''push'', ''GITHUB_REF'' \<mapsto> ''refs/tags/v1'']" "''schedule''"
          "listing_world [] [] accepted" "''t''" "''102''" "''o/r''" "''refs/tags/v1''"]
  by (simp add: event_env_def start_def startsWith_def tagPrefix_def)

text \<open>
  A pull request whose head ref (and \<open>GITHUB_REF\<close>) begins with \<open>refs/tags/\<close> is not
  skipped: the workflow is looked up, the runs are listed for the branch
  \<open>refs/tags/v1\<close>, and the older run is cancelled.
\<close>

theorem C3_pull_request_with_tag_ref_is_not_skipped:
  "startsWith ''refs/tags/v1'' tagPrefix
   \<and> event_env ''102'' ''pull_request'' ''refs/tags/v1'' ''GITHUB_REF'' = Some ''refs/tags/v1''
   \<and> event_env ''102'' ''pull_request'' ''refs/tags/v1'' ''GITHUB_HEAD_REF'' = Some ''refs/tags/v1''
   \<and> calls (run (listing_world [ArrayData [listed_run 101 10 ''pull_request'' ''queued'']] [] accepted)
              ''t'' (event_env ''102'' ''pull_request'' ''refs/tags/v1''))
     = [GetWorkflowRun ''o'' (Some ''r'') (Some 102),
        ListWorkflowRuns ''o'' (Some ''r'') ''7'' ''queued'' ''refs/tags/v1'',
        ListWorkflowRuns ''o'' (Some ''r'') ''7'' ''in_progress'' ''refs/tags/v1'',
        CancelWorkflowRun ''o'' (Some ''r'') 101]"
  by (simp add: eval_defs)

text \<open>
  C4. A failing cancel request is caught and logged as a warning and changes neither
  the failure state nor the rejection state; the loop sends the cancel request for
  every target, in order, whatever the collaborator answers; replacing the cancel
  collaborator changes nothing of a run but its messages; and when the lookup and both
  listings succeed, \<open>cancelDuplicates\<close> resolves and has requested every target.
\<close>

theorem C4_cancel_failures_stay_local:
  "calls (processRuns w owner repo selfRunId entries st) =
     calls st @ map (\<lambda>element. CancelWorkflowRun owner repo (run_id element))
                    (duplicatePolicy selfRunId entries)
   \<and> failed (processRuns w owner repo selfRunId entries st) = failed st
   \<and> unhandled (processRuns w owner repo selfRunId entries st) = unhandled st
   \<and> (cancelWorkflowRun w owner repo i = Inl error \<longrightarrow>
        cancelRun w owner repo i st =
          warning (''Could not cancel run (id '' @ toString i @ ''): [''
                   @ show_status (err_status error) @ ''] '' @ err_message error)
            (request (CancelWorkflowRun owner repo i) st))
   \<and> (run (w\<lparr>cancelWorkflowRun := c\<rparr>) token env)\<lparr>messages := []\<rparr>
       = (run w token env)\<lparr>messages := []\<rparr>
   \<and> (getWorkflowRun w owner repo (parseInt selfRunId) = Inr url
        \<and> last (split CHR ''/'' url) \<noteq> []
        \<and> paginate w owner repo (last (split CHR ''/'' url)) ''queued'' branch = (queued, None)
        \<and> paginate w owner repo (last (split CHR ''/'' url)) ''in_progress'' branch = (in_progress, None)
      \<longrightarrow> fst (cancelDuplicates w token selfRunId owner repo branch st) = Inr ()
          \<and> failed (snd (cancelDuplicates w token selfRunId owner repo branch st)) = failed st
          \<and> unhandled (snd (cancelDuplicates w token selfRunId owner repo branch st)) = unhandled st
          \<and> cancelled (calls (snd (cancelDuplicates w token selfRunId owner repo branch st)))
              = cancelled (calls st)
                @ map run_id (duplicatePolicy selfRunId
                                (backward (fold mergePage (queued @ in_progress) []))))"
proof -
  have caught: "cancelRun w owner repo i st =
          warning (''Could not cancel run (id '' @ toString i @ ''): [''
                   @ show_status (err_status error) @ ''] '' @ err_message error)
            (request (CancelWorkflowRun owner repo i) st)"
    if "cancelWorkflowRun w owner repo i = Inl error"
    using that by (simp add: cancelRun_def Let_def)
  have resolves: "fst (cancelDuplicates w token selfRunId owner repo branch st) = Inr ()
          \<and> failed (snd (cancelDuplicates w token selfRunId owner repo branch st)) = failed st
          \<and> unhandled (snd (cancelDuplicates w token selfRunId owner repo branch st)) = unhandled st
          \<and> cancelled (calls (snd (cancelDuplicates w token selfRunId owner repo branch st)))
              = cancelled (calls st)
                @ map run_id (duplicatePolicy selfRunId
                                (backward (fold mergePage (queued @ in_progress) [])))"
    if "getWorkflowRun w owner repo (parseInt selfRunId) = Inr url"
      and "last (split CHR ''/'' url) \<noteq> []"
      and "paginate w owner repo (last (split CHR ''/'' url)) ''queued'' branch = (queued, None)"
      and "paginate w owner repo (last (split CHR ''/'' url)) ''in_progress'' branch = (in_progress, None)"
    using cancelDuplicates_listed[OF that, of token st] by simp
  from caught resolves show ?thesis
    by (simp add: processRuns_calls run_cancel_indep)
qed

theorem C4_witness:
  "run (listing_world [ArrayData [listed_run 100 10 ''push'' ''queued'', listed_run 101 11 ''push'' ''queued'']] []
          (forbidden 101))
        ''t'' (event_env ''102'' ''push'' ''refs/heads/main'')
   = \<lparr>messages =
        [Info ''t'',
         Info ''Branch is main, repo is r, and owner is o, and id is 102'',
         Info ''Workflow ID is: 7'',
         Info ''Found queued/in_progress workflows: 2'',
         Info ''Processing run ID: 101 [push : /workflows/7 : queued : 11]'',
         Info ''Cancelling run ID: 101'',
         Warning ''Could not cancel run (id 101): [403] Forbidden'',
         Info ''Processing run ID: 100 [push : /workflows/7 : queued : 10]'',
         Info ''Cancelling run ID: 100'',
         Info ''Previous run (id 100) cancelled, status = 202''],
      calls =
        [GetWorkflowRun ''o'' (Some ''r'') (Some 102),
         ListWorkflowRuns ''o'' (Some ''r'') ''7'' ''queued'' ''main'',
         ListWorkflowRuns ''o'' (Some ''r'') ''7'' ''in_progress'' ''main'',
         CancelWorkflowRun ''o'' (Some ''r'') 101,
         CancelWorkflowRun ''o'' (Some ''r'') 100],
      failed = None, unhandled = None\<rparr>
   \<and> fst (cancelDuplicates
        (listing_world [ArrayData [listed_run 100 10 ''push'' ''queued'', listed_run 101 11 ''push'' ''queued'']] []
          (forbidden 101))
        ''t'' ''102'' ''o'' (Some ''r'') ''main'' start) = Inr ()"
  using C4_cancel_failures_stay_local
    [of "listing_world [ArrayData [listed_run 100 10 ''push'' ''queued'', listed_run 101 11 ''push'' ''queued'']] []
          (forbidden 101)"
        "''o''" "Some ''r''" "''102''"
        "[(11, listed_run 101 11 ''push'' ''queued''), (10, listed_run 100 10 ''push'' ''queued'')]"
        start 101 "JsError (Some 403) ''Forbidden''" "\<lambda>owner repo. accepted" "''t''"
        "event_env ''102'' ''push'' ''refs/heads/main''" "''/workflows/7''" "''main''"
        "[ArrayData [listed_run 100 10 ''push'' ''queued'', listed_run 101 11 ''push'' ''queued'']]" "[]"]
  by (simp add: eval_defs)

text \<open>
  C5. For every Collected Set, the Duplicate Policy's output never includes a record with
  the status \<open>completed\<close> and never includes a record whose trigger event is outside
  \<open>push\<close> and \<open>pull_request\<close>. The cancel requests the loop sends are exactly those
  for the policy's output, in its order.
\<close>

theorem C5_policy_excludes_completed_and_other_events:
  "calls (processRuns w owner repo selfRunId entries st) =
     calls st @ map (\<lambda>element. CancelWorkflowRun owner repo (run_id element))
                    (duplicatePolicy selfRunId entries)
   \<and> (\<forall>element \<in> set (duplicatePolicy selfRunId entries).
        status element \<noteq> ''completed'' \<and> event element \<in> {''push'', ''pull_request''})"
  by (simp add: processRuns_calls duplicatePolicy_filter)

theorem C5_witness:
  "duplicatePolicy ''105''
     [(11, listed_run 104 11 ''pull_request'' ''in_progress''),
      (10, listed_run 103 10 ''push'' ''queued''),
      (9, listed_run 102 9 ''push'' ''completed''),
      (8, listed_run 101 8 ''schedule'' ''queued'')]
   = [listed_run 104 11 ''pull_request'' ''in_progress'', listed_run 103 10 ''push'' ''queued'']
   \<and> messages (processRuns (listing_world [] [] accepted) ''o'' (Some ''r'') ''105''
     [(11, listed_run 104 11 ''pull_request'' ''in_progress''),
      (10, listed_run 103 10 ''push'' ''queued''),
      (9, listed_run 102 9 ''push'' ''completed''),
      (8, listed_run 101 8 ''schedule'' ''queued'')] start)
   = [Info ''Processing run ID: 104 [pull_request : /workflows/7 : in_progress : 11]'',
      Info ''Cancelling run ID: 104'',
      Info ''Previous run (id 104) cancelled, status = 202'',
      Info ''Processing run ID: 103 [push : /workflows/7 : queued : 10]'',
      Info ''Cancelling run ID: 103'',
      Info ''Previous run (id 103) cancelled, status = 202'',
      Info ''Processing run ID: 102 [push : /workflows/7 : completed : 9]'',
      Info ''Skipping completed run ID: 102'',
      Info ''Processing run ID: 101 [schedule : /workflows/7 : queued : 8]'',
      Info ''Skipping completed or non-event matching run ID: 101'']
   \<and> calls (processRuns (listing_world [] [] accepted) ''o'' (Some ''r'') ''105''
     [(11, listed_run 104 11 ''pull_request'' ''in_progress''),
      (10, listed_run 103 10 ''push'' ''queued''),
      (9, listed_run 102 9 ''push'' ''completed''),
      (8, listed_run 101 8 ''schedule'' ''queued'')] start)
   = [CancelWorkflowRun ''o'' (Some ''r'') 104, CancelWorkflowRun ''o'' (Some ''r'') 103]"
  using C5_policy_excludes_completed_and_other_events
    [of "listing_world [] [] accepted" "''o''" "Some ''r''" "''105''"
     "[(11, listed_run 104 11 ''pull_request'' ''in_progress''),
      (10, listed_run 103 10 ''push'' ''queued''),
      (9, listed_run 102 9 ''push'' ''completed''),
      (8, listed_run 101 8 ''schedule'' ''queued'')]" start]
  by (simp add: eval_defs)



text \<open>
  C7. When both listings succeed, the collector returns one map that holds, for every
  run number among the returned records, the last record returned with that number
  (\<open>spec_merge\<close>), with one entry per run number; a page whose runs are wrapped in the
  \<open>workflow_runs\<close> property contributes the same elements as a page that is the array.
\<close>

theorem C7_collector_merges_by_run_number:
  "paginate w owner repo workflowId ''queued'' branch = (queued, None)
   \<and> paginate w owner repo workflowId ''in_progress'' branch = (in_progress, None)
   \<longrightarrow> (\<exists>sortedRuns st'.
         collectRuns w owner repo workflowId branch [''queued'', ''in_progress''] [] st
           = (Inr sortedRuns, st')
         \<and> map_of sortedRuns = spec_merge (concat (map elements (queued @ in_progress)))
         \<and> distinct (map fst sortedRuns)
         \<and> tm_size sortedRuns = card (run_number ` set (concat (map elements (queued @ in_progress)))))
     \<and> elements (ObjectData runs) = runs \<and> elements (ArrayData runs) = runs"
proof -
  have shapes: "elements (ObjectData runs) = runs \<and> elements (ArrayData runs) = runs"
    by (simp add: elements_def)
  have merged: "\<exists>sortedRuns st'.
         collectRuns w owner repo workflowId branch [''queued'', ''in_progress''] [] st
           = (Inr sortedRuns, st')
         \<and> map_of sortedRuns = spec_merge (concat (map elements (queued @ in_progress)))
         \<and> distinct (map fst sortedRuns)
         \<and> tm_size sortedRuns = card (run_number ` set (concat (map elements (queued @ in_progress))))"
    if q: "paginate w owner repo workflowId ''queued'' branch = (queued, None)"
      and p: "paginate w owner repo workflowId ''in_progress'' branch = (in_progress, None)"
  proof -
    let ?m = "fold mergePage (queued @ in_progress) []"
    have c: "collectRuns w owner repo workflowId branch [''queued'', ''in_progress''] [] st
        = (Inr ?m, request (ListWorkflowRuns owner repo workflowId ''in_progress'' branch)
                     (request (ListWorkflowRuns owner repo workflowId ''queued'' branch) st))"
      by (simp add: q p Let_def)
    have m: "map_of ?m = spec_merge (concat (map elements (queued @ in_progress)))"
      unfolding spec_merge_def mergePages_fold fold_tm_set_map_of by simp
    have "sorted_wrt (<) (map fst ?m)"
      by (rule mergePages_sorted) simp
    then have d: "distinct (map fst ?m)"
      using strict_sorted_iff by blast
    have "set (map fst ?m) = run_number ` set (concat (map elements (queued @ in_progress)))"
      unfolding mergePages_fold by (simp only: fold_tm_set_key_set) simp
    then have "card (run_number ` set (concat (map elements (queued @ in_progress)))) = length (map fst ?m)"
      using d distinct_card by metis
    then have n: "tm_size ?m = card (run_number ` set (concat (map elements (queued @ in_progress))))"
      by (simp add: tm_size_def)
    from c m d n show ?thesis by blast
  qed
  from shapes merged show ?thesis by blast
qed

theorem C7_witness:
  "collectRuns
     (listing_world [ArrayData [listed_run 101 10 ''push'' ''queued'', listed_run 103 11 ''push'' ''queued'']]
                    [ObjectData [listed_run 100 9 ''push'' ''in_progress'', listed_run 101 10 ''push'' ''in_progress'']]
                    accepted)
     ''o'' (Some ''r'') ''7'' ''main'' [''queued'', ''in_progress''] [] start
   = (Inr [(9, listed_run 100 9 ''push'' ''in_progress''),
           (10, listed_run 101 10 ''push'' ''in_progress''),
           (11, listed_run 103 11 ''push'' ''queued'')],
      \<lparr>messages = [],
       calls = [ListWorkflowRuns ''o'' (Some ''r'') ''7'' ''queued'' ''main'',
                ListWorkflowRuns ''o'' (Some ''r'') ''7'' ''in_progress'' ''main''],
       failed = None, unhandled = None\<rparr>)
   \<and> spec_merge [listed_run 101 10 ''push'' ''queued'', listed_run 103 11 ''push'' ''queued'',
                 listed_run 100 9 ''push'' ''in_progress'', listed_run 101 10 ''push'' ''in_progress''] 10
     = Some (listed_run 101 10 ''push'' ''in_progress'')"
  using C7_collector_merges_by_run_number
    [of "listing_world [ArrayData [listed_run 101 10 ''push'' ''queued'', listed_run 103 11 ''push'' ''queued'']]
                    [ObjectData [listed_run 100 9 ''push'' ''in_progress'', listed_run 101 10 ''push'' ''in_progress'']]
                    accepted"
        "''o''" "Some ''r''" "''7''" "''main''"
        "[ArrayData [listed_run 101 10 ''push'' ''queued'', listed_run 103 11 ''push'' ''queued'']]"
        "[ObjectData [listed_run 100 9 ''push'' ''in_progress'', listed_run 101 10 ''push'' ''in_progress'']]"
        start]
  by (simp add: eval_defs spec_merge_def)

text \<open>
  C8. The Duplicate Policy is deterministic and idempotent: running the loop twice over
  the same entries with the same current run identifier sends the same ordered cancel
  requests both times, whatever the collaborators answer and whatever was logged before;
  applying the policy to its own output gives that output again; the empty Collected
  Set gives the empty output, and \<open>cancelDuplicates\<close> then resolves without cancelling.
\<close>

theorem C8_policy_repeats_its_output:
  "calls (processRuns w2 owner repo selfRunId entries (processRuns w1 owner repo selfRunId entries st))
     = calls st
       @ map (\<lambda>element. CancelWorkflowRun owner repo (run_id element)) (duplicatePolicy selfRunId entries)
       @ map (\<lambda>element. CancelWorkflowRun owner repo (run_id element)) (duplicatePolicy selfRunId entries)
   \<and> duplicatePolicy selfRunId
        (map (\<lambda>element. (run_number element, element)) (duplicatePolicy selfRunId entries))
      = duplicatePolicy selfRunId entries
   \<and> duplicatePolicy selfRunId [] = []
   \<and> processRuns w1 owner repo selfRunId [] st = st
   \<and> (getWorkflowRun w owner repo (parseInt selfRunId) = Inr url
        \<and> last (split CHR ''/'' url) \<noteq> []
        \<and> paginate w owner repo (last (split CHR ''/'' url)) ''queued'' branch = ([], None)
        \<and> paginate w owner repo (last (split CHR ''/'' url)) ''in_progress'' branch = ([], None)
      \<longrightarrow> fst (cancelDuplicates w token selfRunId owner repo branch st) = Inr ()
          \<and> cancelled (calls (snd (cancelDuplicates w token selfRunId owner repo branch st)))
              = cancelled (calls st))"
proof -
  have twice: "calls (processRuns w2 owner repo selfRunId entries (processRuns w1 owner repo selfRunId entries st))
     = calls st
       @ map (\<lambda>element. CancelWorkflowRun owner repo (run_id element)) (duplicatePolicy selfRunId entries)
       @ map (\<lambda>element. CancelWorkflowRun owner repo (run_id element)) (duplicatePolicy selfRunId entries)"
    by (simp add: processRuns_calls)
  have again: "duplicatePolicy selfRunId
        (map (\<lambda>element. (run_number element, element)) (duplicatePolicy selfRunId entries))
      = duplicatePolicy selfRunId entries"
    by (simp add: duplicatePolicy_filter comp_def)
  have empty: "fst (cancelDuplicates w token selfRunId owner repo branch st) = Inr ()
          \<and> cancelled (calls (snd (cancelDuplicates w token selfRunId owner repo branch st)))
              = cancelled (calls st)"
    if "getWorkflowRun w owner repo (parseInt selfRunId) = Inr url"
      and "last (split CHR ''/'' url) \<noteq> []"
      and "paginate w owner repo (last (split CHR ''/'' url)) ''queued'' branch = ([], None)"
      and "paginate w owner repo (last (split CHR ''/'' url)) ''in_progress'' branch = ([], None)"
    using cancelDuplicates_listed[OF that, of token st] by (simp add: backward_def)
  from twice again empty show ?thesis by simp
qed

theorem C8_witness:
  "calls (processRuns (listing_world [] [] (forbidden 101)) ''o'' (Some ''r'') ''102''
            [(11, listed_run 101 11 ''push'' ''in_progress''), (10, listed_run 100 10 ''push'' ''queued'')]
       (processRuns (listing_world [] [] accepted) ''o'' (Some ''r'') ''102''
            [(11, listed_run 101 11 ''push'' ''in_progress''), (10, listed_run 100 10 ''push'' ''queued'')]
          start))
   = [CancelWorkflowRun ''o'' (Some ''r'') 101, CancelWorkflowRun ''o'' (Some ''r'') 100,
      CancelWorkflowRun ''o'' (Some ''r'') 101, CancelWorkflowRun ''o'' (Some ''r'') 100]
   \<and> cancelDuplicates (listing_world [] [] accepted) ''t'' ''102'' ''o'' (Some ''r'') ''main'' start
     = (Inr (),
        \<lparr>messages = [Info ''Workflow ID is: 7'', Info ''Found queued/in_progress workflows: 0''],
         calls = [GetWorkflowRun ''o'' (Some ''r'') (Some 102),
                  ListWorkflowRuns ''o'' (Some ''r'') ''7'' ''queued'' ''main'',
                  ListWorkflowRuns ''o'' (Some ''r'') ''7'' ''in_progress'' ''main''],
         failed = None, unhandled = None\<rparr>)"
  using C8_policy_repeats_its_output
    [of "listing_world [] [] (forbidden 101)" "''o''" "Some ''r''" "''102''"
        "[(11, listed_run 101 11 ''push'' ''in_progress''), (10, listed_run 100 10 ''push'' ''queued'')]"
        "listing_world [] [] accepted" start
        "listing_world [] [] accepted" "''/workflows/7''" "''main''" "''t''"]
  by (simp add: eval_defs)

text \<open>
  C9. The first line of the log of every run is the token, as \<open>core.getInput\<close> returned
  it; so two runs with different tokens have different logs.
\<close>

theorem C9_token_is_logged_first:
  "(\<exists>rest. messages (run w token env) = Info token # rest)
   \<and> (token \<noteq> token' \<longrightarrow> messages (run w token env) \<noteq> messages (run w' token' env'))"
proof -
  have first: "\<exists>rest. messages (run w token env) = Info token # rest" for w token env
    using run_messages[of token w env] by (auto simp: prefix_def)
  from first[of w token env] first[of w' token' env'] show ?thesis
    by auto
qed

theorem C9_witness:
  "messages (run (listing_world [] [] accepted) ''ghs_A'' (event_env ''102'' ''schedule'' ''refs/heads/main''))
     = [Info ''ghs_A'', Info ''Skipping unsupported event: schedule'']
   \<and> messages (run (listing_world [] [] accepted) ''ghs_B'' (event_env ''102'' ''schedule'' ''refs/heads/main''))
     = [Info ''ghs_B'', Info ''Skipping unsupported event: schedule'']
   \<and> ''ghs_A'' \<noteq> ''ghs_B''"
  using C9_token_is_logged_first
    [of "listing_world [] [] accepted" "''ghs_A''" "event_env ''102'' ''schedule'' ''refs/heads/main''"
        "''ghs_B''" "listing_world [] [] accepted" "event_env ''102'' ''schedule'' ''refs/heads/main''"]
  by (simp add: eval_defs)

text \<open>
  C10. \<open>getRequiredEnv\<close> fails exactly when the variable is undefined; a variable set to
  the empty string is returned as it is. With empty \<open>GITHUB_RUN_ID\<close>,
  \<open>GITHUB_REPOSITORY\<close> and \<open>GITHUB_EVENT_NAME\<close> the run ends as an unsupported event,
  without failure; with the first two empty on a push to a branch, nothing fails and
  the workflow lookup is requested for the owner \<open>""\<close>, no repository and the run
  identifier \<open>NaN\<close>.
\<close>

theorem C10_only_an_undefined_variable_is_missing:
  "((\<exists>error. getRequiredEnv env key = Inl error) \<longleftrightarrow> env key = None)
   \<and> (env key = Some v \<longrightarrow> getRequiredEnv env key = Inr v)
   \<and> getRequiredEnv (env(key \<mapsto> [])) key = Inr []
   \<and> (env ''GITHUB_RUN_ID'' = Some [] \<and> env ''GITHUB_REPOSITORY'' = Some []
        \<and> env ''GITHUB_EVENT_NAME'' = Some []
      \<longrightarrow> run w token env =
            start\<lparr>messages := [Info token, Info ''Skipping unsupported event: '']\<rparr>)
   \<and> (env ''GITHUB_RUN_ID'' = Some [] \<and> env ''GITHUB_REPOSITORY'' = Some []
        \<and> env ''GITHUB_EVENT_NAME'' = Some ''push'' \<and> env ''GITHUB_REF'' = Some (branchPrefix @ b)
      \<longrightarrow> failed (run w token env) = None
          \<and> prefix [GetWorkflowRun [] None None] (calls (run w token env)))"
proof -
  have a: "(\<exists>error. getRequiredEnv env key = Inl error) \<longleftrightarrow> env key = None"
    by (simp add: getRequiredEnv_def split: option.split)
  have b: "env key = Some v \<longrightarrow> getRequiredEnv env key = Inr v"
    by (simp add: getRequiredEnv_def)
  have c: "getRequiredEnv (env(key \<mapsto> [])) key = Inr []"
    by (simp add: getRequiredEnv_def)
  have d: "run w token env = start\<lparr>messages := [Info token, Info ''Skipping unsupported event: '']\<rparr>"
    if "env ''GITHUB_RUN_ID'' = Some []" "env ''GITHUB_REPOSITORY'' = Some []"
       "env ''GITHUB_EVENT_NAME'' = Some []"
    using that by (simp add: run_def run_try_def getRequiredEnv_def Let_def info_def start_def)
  have e: "failed (run w token env) = None
          \<and> prefix [GetWorkflowRun [] None None] (calls (run w token env))"
    if h: "env ''GITHUB_RUN_ID'' = Some []" "env ''GITHUB_REPOSITORY'' = Some []"
       "env ''GITHUB_EVENT_NAME'' = Some ''push''" "env ''GITHUB_REF'' = Some (branchPrefix @ b)"
  proof -
    let ?st2 = "info (''Branch is '' @ b @ '', repo is '' @ show_opt None
                     @ '', and owner is '' @ [] @ '', and id is '' @ []) (info token start)"
    have r: "run_try w token env start =
        (case cancelDuplicates w token [] [] None b ?st2 of
           (Inl error, st3) \<Rightarrow> (Inr (), st3\<lparr>unhandled := Some error\<rparr>)
         | (Inr u, st3) \<Rightarrow> (Inr (), st3))"
      using h by (simp add: run_try_def getRequiredEnv_def Let_def startsWith_def replace_prefix)
    have n: "parseInt [] = None"
      by (simp add: parseInt_def Let_def startsWith_def)
    from run_started[OF r] show ?thesis
      by (simp add: start_def n)
  qed
  from a b c d e show ?thesis by blast
qed

theorem C10_witness:
  "getRequiredEnv (event_env [] ''push'' ''refs/heads/main'') ''GITHUB_RUN_ID'' = Inr []
   \<and> getRequiredEnv (event_env [] ''push'' ''refs/heads/main'') ''GITHUB_SHA''
       = Inl (Error ''GITHUB_SHA was not defined.'')
   \<and> run (listing_world [] [] accepted) ''t'' [''GITHUB_RUN_ID'' \<mapsto> [], ''GITHUB_REPOSITORY'' \<mapsto> [],
            ''GITHUB_EVENT_NAME'' \<mapsto> []]
       = \<lparr>messages = [Info ''t'', Info ''Skipping unsupported event: ''], calls = [],
          failed = None, unhandled = None\<rparr>
   \<and> run (listing_world [] [] accepted) ''t'' [''GITHUB_RUN_ID'' \<mapsto> [], ''GITHUB_REPOSITORY'' \<mapsto> [],
            ''GITHUB_EVENT_NAME'' \<mapsto> ''push'', ''GITHUB_REF'' \<mapsto> ''refs/heads/main'']
       = \<lparr>messages =
            [Info ''t'',
             Info ''Branch is main, repo is undefined, and owner is , and id is '',
             Info ''Workflow ID is: 7'',
             Info ''Found queued/in_progress workflows: 0''],
          calls =
            [GetWorkflowRun [] None None,
             ListWorkflowRuns [] None ''7'' ''queued'' ''main'',
             ListWorkflowRuns [] None ''7'' ''in_progress'' ''main''],
          failed = None, unhandled = None\<rparr>"
  using C10_only_an_undefined_variable_is_missing
      [of "event_env [] ''push'' ''refs/heads/main''" "''GITHUB_RUN_ID''" "[]"
          "listing_world [] [] accepted" "''t''" "''main''"]
    C10_only_an_undefined_variable_is_missing
      [of "event_env [] ''push'' ''refs/heads/main''" "''GITHUB_SHA''" "[]"
          "listing_world [] [] accepted" "''t''" "''main''"]
    C10_only_an_undefined_variable_is_missing
      [of "[''GITHUB_RUN_ID'' \<mapsto> [], ''GITHUB_REPOSITORY'' \<mapsto> [],
            ''GITHUB_EVENT_NAME'' \<mapsto> []]" "''GITHUB_SHA''" "[]"
          "listing_world [] [] accepted" "''t''" "''main''"]
    C10_only_an_undefined_variable_is_missing
      [of "[''GITHUB_RUN_ID'' \<mapsto> [], ''GITHUB_REPOSITORY'' \<mapsto> [],
            ''GITHUB_EVENT_NAME'' \<mapsto> ''push'', ''GITHUB_REF'' \<mapsto> ''refs/heads/main'']" "''GITHUB_SHA''" "[]"
          "listing_world [] [] accepted" "''t''" "''main''"]
  by (simp add: eval_defs)

end
